theory Spec2Isabelle
  imports Main "HOL-Library.AList"
begin

section \<open>JavaScript values and rows\<close>

text \<open>
  A JavaScript number as far as this program meets one: the rows carry integer
  identities and counts, and \<^verbatim>\<open>parseInt\<close> (used by the server on
  request parameters) returns an integer, \<^verbatim>\<open>NaN\<close> or an infinity.
\<close>

datatype jsnum = NaN | Fin int | PosInf | NegInf

text \<open>
  A value a row can hold. Besides the scalars there is \<open>JBuiltin name\<close>: the
  function or object that every plain object inherits under that name from
  \<^verbatim>\<open>Object.prototype\<close> (it is truthy, like every object).
\<close>

datatype jsval = JUndefined | JNull | JNum jsnum | JStr string | JBuiltin string

text \<open>
  \<^verbatim>\<open>type Row = Record<string, any> & { id: number }\<close>: an object is its
  list of own properties in insertion order. Reading a missing property gives
  \<^verbatim>\<open>undefined\<close>.
\<close>

type_synonym row = "(string \<times> jsval) list"

definition get_prop :: "row \<Rightarrow> string \<Rightarrow> jsval" where
  "get_prop r k = (case map_of r k of None \<Rightarrow> JUndefined | Some v \<Rightarrow> v)"

definition row_id :: "row \<Rightarrow> jsval" where
  "row_id r = get_prop r ''id''"

text \<open>
  \<^verbatim>\<open>{ ...cur, [field]: value }\<close> and \<^verbatim>\<open>row.k = v\<close>: an existing
  property keeps its place and takes the new value, a new one is appended.
\<close>

definition set_prop :: "row \<Rightarrow> string \<Rightarrow> jsval \<Rightarrow> row" where
  "set_prop r k v = AList.update k v r"

section \<open>The viewer session (App)\<close>

definition PAGE_SIZE :: int where
  "PAGE_SIZE = 150"

text \<open>
  \<^verbatim>\<open>DEMO_ERRORS: Record<number, string>\<close> has the own keys 2, 4 and 6. Indexing
  an object converts the key to a property name, so the number 2 and the string
  "2" find the same entry; and a string that names a property of
  \<^verbatim>\<open>Object.prototype\<close> finds the inherited function or object. Every other
  key gives \<^verbatim>\<open>undefined\<close> (\<open>None\<close>). The dash of the third message is
  written as its UTF-8 bytes.
\<close>

definition OBJECT_PROTOTYPE :: "string list" where
  "OBJECT_PROTOTYPE =
     [''constructor'', ''__defineGetter__'', ''__defineSetter__'', ''hasOwnProperty'',
      ''__lookupGetter__'', ''__lookupSetter__'', ''isPrototypeOf'', ''propertyIsEnumerable'',
      ''toString'', ''valueOf'', ''__proto__'', ''toLocaleString'']"

definition DEMO_ERRORS :: "jsval \<Rightarrow> jsval option" where
  "DEMO_ERRORS k =
     (if k = JNum (Fin 2) \<or> k = JStr ''2'' then Some (JStr ''Missing brief & deadline'')
      else if k = JNum (Fin 4) \<or> k = JStr ''4'' then Some (JStr ''No assigned owner'')
      else if k = JNum (Fin 6) \<or> k = JStr ''6''
        then Some (JStr (''Status not set '' @ [CHR 0xE2, CHR 0x80, CHR 0x94] @ '' blocked''))
      else (case k of
              JStr name \<Rightarrow> if name \<in> set OBJECT_PROTOTYPE then Some (JBuiltin name) else None
            | _ \<Rightarrow> None))"

text \<open>
  The refs and the React state of \<^verbatim>\<open>App\<close> that the data path touches:
  \<^verbatim>\<open>rowsMapRef\<close>, \<^verbatim>\<open>idToIdxRef\<close>, \<^verbatim>\<open>fetchedPagesRef\<close>,
  \<^verbatim>\<open>fetchingPagesRef\<close>, \<^verbatim>\<open>total\<close>, \<^verbatim>\<open>loadedCount\<close>, the counter behind
  \<^verbatim>\<open>forceUpdate\<close>, \<^verbatim>\<open>editingCell\<close> and \<^verbatim>\<open>editingDropdown\<close>.
  A JavaScript \<^verbatim>\<open>Map\<close> compares keys by value, as HOL does.
\<close>

record app_state =
  rowsMap :: "int \<rightharpoonup> row"
  idToIdx :: "jsval \<rightharpoonup> int"
  fetchedPages :: "int set"
  fetchingPages :: "int set"
  total :: int
  loadedCount :: nat
  renders :: nat
  editingCell :: "(jsval \<times> string) option"
  editingDropdown :: "(jsval \<times> string) option"

definition app_init :: app_state where
  "app_init = \<lparr> rowsMap = Map.empty, idToIdx = Map.empty, fetchedPages = {},
      fetchingPages = {}, total = 0, loadedCount = 0, renders = 0,
      editingCell = None, editingDropdown = None \<rparr>"

subsection \<open>fetchPage\<close>

text \<open>
  The body of \<^verbatim>\<open>GET /api/rows\<close> as the client reads it: the page object with
  \<^verbatim>\<open>data\<close>, \<^verbatim>\<open>total\<close>, \<^verbatim>\<open>limit\<close> and \<^verbatim>\<open>offset\<close>, or the
  error object \<^verbatim>\<open>{ error: ... }\<close>, which has neither \<^verbatim>\<open>data\<close> nor
  \<^verbatim>\<open>total\<close>.
\<close>

datatype rows_reply = RowsPage "row list" int jsnum jsnum | RowsError string

fun json_data :: "rows_reply \<Rightarrow> row list option" where
  "json_data (RowsPage d t l off) = Some d"
| "json_data (RowsError e) = None"

fun json_total :: "rows_reply \<Rightarrow> int option" where
  "json_total (RowsPage d t l off) = Some t"
| "json_total (RowsError e) = None"

text \<open>
  How the awaited \<^verbatim>\<open>fetch\<close> and \<^verbatim>\<open>res.json()\<close> end: a rejected promise
  (no connection, or a body that is not JSON), which lands in \<^verbatim>\<open>catch\<close>, or a
  response with its status and parsed body. \<^verbatim>\<open>fetch\<close> resolves for every
  status, and \<^verbatim>\<open>fetchPage\<close> never reads the status.
\<close>

datatype fetch_outcome = FetchRejected | FetchResponded nat rows_reply

text \<open>
  The part of \<^verbatim>\<open>fetchPage\<close> before the \<^verbatim>\<open>await\<close>: the new state and the
  pages a request went out for (none or one).
\<close>

definition fetchPage :: "int \<Rightarrow> app_state \<Rightarrow> app_state \<times> int list" where
  "fetchPage page s =
     (if page \<in> fetchedPages s then (s, [])
      else if page \<in> fetchingPages s then (s, [])
      else (s\<lparr>fetchingPages := insert page (fetchingPages s)\<rparr>, [page]))"

text \<open>The \<^verbatim>\<open>for\<close> loop over the received rows; \<open>idx\<close> is \<^verbatim>\<open>offset + i\<close>.\<close>

fun store_rows :: "int \<Rightarrow> row list \<Rightarrow> app_state \<Rightarrow> app_state" where
  "store_rows idx [] s = s"
| "store_rows idx (r # rows) s =
     (let r' = (case DEMO_ERRORS (row_id r) of
                  None \<Rightarrow> r
                | Some e \<Rightarrow> set_prop r ''marcus_error'' e)
      in store_rows (idx + 1) rows
           (s\<lparr>rowsMap := (rowsMap s)(idx \<mapsto> r'),
              idToIdx := (idToIdx s)(row_id r' \<mapsto> idx)\<rparr>))"

text \<open>The part of \<^verbatim>\<open>fetchPage\<close> after the \<^verbatim>\<open>await\<close>, and its \<^verbatim>\<open>catch\<close>.\<close>

definition fetchPage_settled :: "int \<Rightarrow> fetch_outcome \<Rightarrow> app_state \<Rightarrow> app_state" where
  "fetchPage_settled page out s =
     (case out of
        FetchRejected \<Rightarrow> s\<lparr>fetchingPages := fetchingPages s - {page}\<rparr>
      | FetchResponded status json \<Rightarrow>
          (let offset = page * PAGE_SIZE;
               rows = (case json_data json of None \<Rightarrow> [] | Some d \<Rightarrow> d);
               s1 = store_rows offset rows s
           in s1\<lparr>fetchedPages := insert page (fetchedPages s1),
                 fetchingPages := fetchingPages s1 - {page},
                 total := (case json_total json of None \<Rightarrow> 0 | Some t \<Rightarrow> t),
                 loadedCount := card (dom (rowsMap s1)),
                 renders := renders s1 + 1\<rparr>))"

subsection \<open>The socket handler and updateCell\<close>

definition socket_cell_updated :: "row \<Rightarrow> app_state \<Rightarrow> app_state" where
  "socket_cell_updated updatedRow s =
     (case idToIdx s (row_id updatedRow) of
        None \<Rightarrow> s
      | Some idx \<Rightarrow> s\<lparr>rowsMap := (rowsMap s)(idx \<mapsto> updatedRow),
                       renders := renders s + 1\<rparr>)"

text \<open>
  The handler of the older \<^verbatim>\<open>Table\<close> component, whose store is an array:
  \<^verbatim>\<open>prev.map((row) => (row.id === updatedRow.id ? updatedRow : row))\<close>.
  \<^verbatim>\<open>===\<close> is equality of values, except that \<^verbatim>\<open>NaN\<close> differs from itself.
\<close>

definition strict_eq :: "jsval \<Rightarrow> jsval \<Rightarrow> bool" where
  "strict_eq a b = (a = b \<and> a \<noteq> JNum NaN)"

definition table_cell_updated :: "row \<Rightarrow> row list \<Rightarrow> row list" where
  "table_cell_updated updatedRow prev =
     map (\<lambda>r. if strict_eq (row_id r) (row_id updatedRow) then updatedRow else r) prev"

datatype write_request = PatchRow jsval string string

datatype write_outcome = WriteRejected | WriteResponded nat

text \<open>
  \<^verbatim>\<open>updateCell\<close> up to its \<^verbatim>\<open>await\<close>: the store is patched, both editors are
  closed, and then the \<^verbatim>\<open>PATCH\<close> request is handed to \<^verbatim>\<open>fetch\<close>. The result
  is the state in which the request leaves, and the request.
\<close>

definition updateCell :: "jsval \<Rightarrow> string \<Rightarrow> string \<Rightarrow> app_state \<Rightarrow> app_state \<times> write_request" where
  "updateCell rowId field val s =
     (let s1 = (case idToIdx s rowId of
                  None \<Rightarrow> s
                | Some idx \<Rightarrow>
                    (case rowsMap s idx of
                       None \<Rightarrow> s
                     | Some cur \<Rightarrow> s\<lparr>rowsMap := (rowsMap s)(idx \<mapsto> set_prop cur field (JStr val))\<rparr>));
          s2 = s1\<lparr>editingCell := None, editingDropdown := None\<rparr>
      in (s2, PatchRow rowId field val))"

text \<open>
  After the \<^verbatim>\<open>await\<close>: the \<^verbatim>\<open>try\<close> block ends, and the \<^verbatim>\<open>catch\<close> block is
  empty.
\<close>

definition updateCell_settled :: "write_outcome \<Rightarrow> app_state \<Rightarrow> app_state" where
  "updateCell_settled out s = (case out of WriteRejected \<Rightarrow> s | WriteResponded status \<Rightarrow> s)"

subsection \<open>The viewport effect\<close>

text \<open>\<^verbatim>\<open>Math.ceil(a / b)\<close> on integers with \<open>b > 0\<close>.\<close>

definition ceil_div :: "int \<Rightarrow> int \<Rightarrow> int" where
  "ceil_div a b = - ((- a) div b)"

text \<open>
  The pages the effect calls \<^verbatim>\<open>fetchPage\<close> for, given the indices of
  \<^verbatim>\<open>virtualRows\<close> in their order and \<^verbatim>\<open>total\<close>.
\<close>

definition viewport_pages :: "int list \<Rightarrow> int \<Rightarrow> int list" where
  "viewport_pages virtualRows tot =
     (if virtualRows = [] \<or> tot = 0 then []
      else
        (let fi = hd virtualRows; li = last virtualRows;
             maxp = ceil_div tot PAGE_SIZE - 1;
             sp = max 0 (fi div PAGE_SIZE - 1);
             ep = min (li div PAGE_SIZE + 2) maxp
         in [sp..ep]))"

fun fetchPages :: "int list \<Rightarrow> app_state \<Rightarrow> app_state \<times> int list" where
  "fetchPages [] s = (s, [])"
| "fetchPages (p # ps) s =
     (let (s1, r1) = fetchPage p s; (s2, r2) = fetchPages ps s1 in (s2, r1 @ r2))"

definition viewport_effect :: "int list \<Rightarrow> app_state \<Rightarrow> app_state \<times> int list" where
  "viewport_effect virtualRows s = fetchPages (viewport_pages virtualRows (total s)) s"

text \<open>
  The coverage in the words of the specification, to compare with
  \<open>viewport_pages\<close>: page \<open>q\<close> covers the positions from \<open>q * PAGE_SIZE\<close> up
  to, not including, \<open>(q + 1) * PAGE_SIZE\<close>; the pages asked for are those that
  meet the span from the least to the greatest visible position, widened by
  \<open>before\<close> pages below and \<open>after\<close> pages above, within the valid pages
  \<open>0 .. ceil (total / PAGE_SIZE) - 1\<close>. The specification widens by one page on
  each side.
\<close>

definition page_meets :: "int \<Rightarrow> int \<Rightarrow> int \<Rightarrow> bool" where
  "page_meets q lo hi \<longleftrightarrow> q * PAGE_SIZE \<le> hi \<and> lo < (q + 1) * PAGE_SIZE"

definition widened_cover :: "int \<Rightarrow> int \<Rightarrow> int list \<Rightarrow> int \<Rightarrow> int set" where
  "widened_cover before after visible tot =
     {p. 0 \<le> p \<and> p \<le> ceil_div tot PAGE_SIZE - 1
         \<and> (\<exists>q. page_meets q (Min (set visible)) (Max (set visible))
                \<and> q - before \<le> p \<and> p \<le> q + after)}"

definition spec_cover_pages :: "int list \<Rightarrow> int \<Rightarrow> int set" where
  "spec_cover_pages visible tot = widened_cover 1 1 visible tot"

subsection \<open>A session as a sequence of events\<close>

text \<open>
  The handlers run one at a time on the event loop. A session is the state of
  \<^verbatim>\<open>App\<close> with the suspended calls: the pages whose \<^verbatim>\<open>fetchPage\<close> waits for
  its response, and the writes whose \<^verbatim>\<open>updateCell\<close> waits for its response.
  A response can only arrive for a call that waits for it.
\<close>

record session =
  st :: app_state
  pendingFetches :: "int list"
  pendingWrites :: "write_request list"

definition session_init :: session where
  "session_init = \<lparr> st = app_init, pendingFetches = [], pendingWrites = [] \<rparr>"

datatype event =
    Mount
  | Viewport "int list"
  | FetchSettled int fetch_outcome
  | CellUpdated row
  | CommitEdit jsval string string
  | WriteSettled write_request write_outcome

fun apply_event :: "session \<Rightarrow> event \<Rightarrow> session" where
  "apply_event w Mount =
     (let (s, reqs) = fetchPage 0 (st w)
      in w\<lparr>st := s, pendingFetches := pendingFetches w @ reqs\<rparr>)"
| "apply_event w (Viewport virtualRows) =
     (let (s, reqs) = viewport_effect virtualRows (st w)
      in w\<lparr>st := s, pendingFetches := pendingFetches w @ reqs\<rparr>)"
| "apply_event w (FetchSettled page out) =
     (if page \<in> set (pendingFetches w)
      then w\<lparr>st := fetchPage_settled page out (st w),
             pendingFetches := remove1 page (pendingFetches w)\<rparr>
      else w)"
| "apply_event w (CellUpdated updatedRow) = w\<lparr>st := socket_cell_updated updatedRow (st w)\<rparr>"
| "apply_event w (CommitEdit rowId field val) =
     (let (s, req) = updateCell rowId field val (st w)
      in w\<lparr>st := s, pendingWrites := pendingWrites w @ [req]\<rparr>)"
| "apply_event w (WriteSettled req out) =
     (if req \<in> set (pendingWrites w)
      then w\<lparr>st := updateCell_settled out (st w),
             pendingWrites := remove1 req (pendingWrites w)\<rparr>
      else w)"

definition run :: "event list \<Rightarrow> session \<Rightarrow> session" where
  "run evs w = foldl apply_event w evs"

text \<open>
  The keys of \<^verbatim>\<open>COLUMN_LABELS\<close>: the identifiers of the columns of the grid.
  \<^verbatim>\<open>renderCell\<close> is called with these, and every call of \<^verbatim>\<open>updateCell\<close>
  passes the field it was rendered for; the identity is shown in a cell of its
  own that cannot be edited.
\<close>

definition COLUMN_LABELS :: "string list" where
  "COLUMN_LABELS =
     [''marcus_error'', ''tasks_name'', ''compose'', ''link_to_ad'', ''stage'', ''task_owner'',
      ''deadline'', ''team'', ''ai_services'', ''purchases'', ''platform'', ''product'',
      ''localization'', ''size'', ''concept'', ''status'', ''compose_creator'',
      ''compose_done_date'', ''attachments'', ''impressions'', ''test_status'']"

subsection \<open>Invariants of a session\<close>

text \<open>
  The fetch ledger agrees with the suspended calls: a page has exactly one
  waiting \<^verbatim>\<open>fetchPage\<close> when it is in \<^verbatim>\<open>fetchingPagesRef\<close> and none
  otherwise, and no page is both fetched and being fetched.
\<close>

definition ledger_inv :: "session \<Rightarrow> bool" where
  "ledger_inv w \<longleftrightarrow>
     (\<forall>p. count_list (pendingFetches w) p = (if p \<in> fetchingPages (st w) then 1 else 0))
     \<and> fetchedPages (st w) \<inter> fetchingPages (st w) = {}"

text \<open>
  Store consistency: every filled position holds a row whose identity the
  reverse map sends back to that position.
\<close>

definition store_consistent :: "app_state \<Rightarrow> bool" where
  "store_consistent s \<longleftrightarrow> (\<forall>p r. rowsMap s p = Some r \<longrightarrow> idToIdx s (row_id r) = Some p)"

text \<open>
  Positions are stable when every identity has one position \<open>pos\<close> at which the
  server delivers it: a fetched page lists its rows at the positions from
  \<^verbatim>\<open>offset\<close> on. An edit keeps the identity of its row when its field is not
  \<^verbatim>\<open>id\<close>; the grid offers the columns of \<^verbatim>\<open>COLUMN_LABELS\<close> for editing,
  and \<^verbatim>\<open>id\<close> is not one of them.
\<close>

definition positions_agree :: "(jsval \<Rightarrow> int) \<Rightarrow> app_state \<Rightarrow> bool" where
  "positions_agree pos s \<longleftrightarrow> (\<forall>v p. idToIdx s v = Some p \<longrightarrow> pos v = p)"

fun delivered_at :: "(jsval \<Rightarrow> int) \<Rightarrow> int \<Rightarrow> row list \<Rightarrow> bool" where
  "delivered_at pos idx [] = True"
| "delivered_at pos idx (r # rows) = (pos (row_id r) = idx \<and> delivered_at pos (idx + 1) rows)"

fun stable_event :: "(jsval \<Rightarrow> int) \<Rightarrow> event \<Rightarrow> bool" where
  "stable_event pos (FetchSettled page (FetchResponded status (RowsPage d t l off))) =
     delivered_at pos (page * PAGE_SIZE) d"
| "stable_event pos (CommitEdit rowId field val) = (field \<noteq> ''id'')"
| "stable_event pos ev = True"

text \<open>Every mapped identity points at a filled position.\<close>

definition mapped_filled :: "app_state \<Rightarrow> bool" where
  "mapped_filled s \<longleftrightarrow> (\<forall>v p. idToIdx s v = Some p \<longrightarrow> rowsMap s p \<noteq> None)"

section \<open>The server (BFF)\<close>

subsection \<open>Numbers read from the request\<close>

text \<open>
  A JavaScript string is a sequence of UTF-16 code units, numbers from 0 to 65535.
  The query parameters of a request are such strings. A \<open>string\<close> of HOL stands
  for the JavaScript string with the same code units, all below 256; property
  names and the route parameter are written so.
\<close>

type_synonym jsstring = "int list"

definition units_of :: "string \<Rightarrow> jsstring" where
  "units_of s = map of_char s"

text \<open>
  The code units that \<^verbatim>\<open>parseInt\<close> skips at the start and that the pattern
  \<^verbatim>\<open>\s\<close> matches: white space (TAB, VT, FF, SP, NBSP, U+1680, U+2000 to
  U+200A, U+202F, U+205F, U+3000, U+FEFF) and line terminators (LF, CR, U+2028,
  U+2029).
\<close>

definition is_js_blank :: "int \<Rightarrow> bool" where
  "is_js_blank u \<longleftrightarrow>
     (9 \<le> u \<and> u \<le> 13) \<or> u = 32 \<or> u = 160 \<or> u = 5760 \<or> (8192 \<le> u \<and> u \<le> 8202)
     \<or> u = 8232 \<or> u = 8233 \<or> u = 8239 \<or> u = 8287 \<or> u = 12288 \<or> u = 65279"

definition is_js_space :: "char \<Rightarrow> bool" where
  "is_js_space c \<longleftrightarrow> is_js_blank (of_char c)"

text \<open>
  \<^verbatim>\<open>parseInt(string)\<close> with no radix: leading blanks are dropped, then a
  sign, then the prefix \<^verbatim>\<open>0x\<close> or \<^verbatim>\<open>0X\<close> selects radix 16 (radix 10
  otherwise), and the longest run of digits of that radix is read; with no digit
  the result is \<^verbatim>\<open>NaN\<close>.
\<close>

definition digit_val :: "int \<Rightarrow> int option" where
  "digit_val u =
     (if 48 \<le> u \<and> u \<le> 57 then Some (u - 48)
      else if 97 \<le> u \<and> u \<le> 122 then Some (u - 87)
      else if 65 \<le> u \<and> u \<le> 90 then Some (u - 55)
      else None)"

definition is_radix_digit :: "int \<Rightarrow> int \<Rightarrow> bool" where
  "is_radix_digit r u = (case digit_val u of None \<Rightarrow> False | Some d \<Rightarrow> d < r)"

definition digits_value :: "int \<Rightarrow> jsstring \<Rightarrow> int" where
  "digits_value r z = foldl (\<lambda>acc u. acc * r + (case digit_val u of None \<Rightarrow> 0 | Some d \<Rightarrow> d)) 0 z"

text \<open>
  The integer read becomes a Number: it is rounded to 53 significant bits, to
  nearest with ties to even, and a magnitude that rounds to \<open>2 ^ 1024\<close> or more
  is an infinity. (For more than 20 significant decimal digits ECMAScript lets an
  implementation approximate the integer before rounding; the rounding here is
  the exact one. Nothing below depends on which finite value comes out.)
\<close>

function bit_length :: "int \<Rightarrow> nat" where
  "bit_length n = (if n \<le> 0 then 0 else Suc (bit_length (n div 2)))"
  by pat_completeness auto
termination
  by (relation "measure nat") auto

definition to_double :: "int \<Rightarrow> jsnum" where
  "to_double x =
     (let n = \<bar>x\<bar>;
          k = bit_length n - 53;
          q = n div 2 ^ k;
          r = n mod 2 ^ k;
          q' = (if 0 < k \<and> (2 ^ k < 2 * r \<or> (2 * r = 2 ^ k \<and> odd q)) then q + 1 else q);
          m = q' * 2 ^ k
      in if 2 ^ 1024 \<le> m then (if x < 0 then NegInf else PosInf)
         else Fin (if x < 0 then - m else m))"

definition parseInt_units :: "jsstring \<Rightarrow> jsnum" where
  "parseInt_units input =
     (let s = dropWhile is_js_blank input;
          neg = (s \<noteq> [] \<and> hd s = 45);
          s1 = (if s \<noteq> [] \<and> (hd s = 43 \<or> hd s = 45) then tl s else s);
          hex = (take 2 s1 = [48, 120] \<or> take 2 s1 = [48, 88]);
          r = (if hex then 16 else 10);
          s2 = (if hex then drop 2 s1 else s1);
          z = takeWhile (is_radix_digit r) s2
      in if z = [] then NaN
         else to_double (if neg then - digits_value r z else digits_value r z))"

text \<open>\<^verbatim>\<open>parseInt\<close> of a string written as a \<open>string\<close> of HOL.\<close>

definition parseInt :: "string \<Rightarrow> jsnum" where
  "parseInt input = parseInt_units (units_of input)"

text \<open>
  A query parameter as \<^verbatim>\<open>parseInt\<close> reads it. One that is absent is
  \<^verbatim>\<open>undefined\<close>, which is read as the string "undefined".
\<close>

definition parseInt_param :: "jsstring option \<Rightarrow> jsnum" where
  "parseInt_param q =
     (case q of None \<Rightarrow> parseInt_units (units_of ''undefined'') | Some s \<Rightarrow> parseInt_units s)"

text \<open>
  \<^verbatim>\<open>x || d\<close> on numbers (\<^verbatim>\<open>NaN\<close> and 0 are falsy), \<^verbatim>\<open>Math.max\<close> and
  \<^verbatim>\<open>Math.min\<close> of two numbers.
\<close>

definition js_falsy :: "jsnum \<Rightarrow> bool" where
  "js_falsy x \<longleftrightarrow> x = NaN \<or> x = Fin 0"

definition js_or :: "jsnum \<Rightarrow> jsnum \<Rightarrow> jsnum" where
  "js_or x d = (if js_falsy x then d else x)"

fun js_max :: "jsnum \<Rightarrow> jsnum \<Rightarrow> jsnum" where
  "js_max NaN b = NaN"
| "js_max a NaN = NaN"
| "js_max PosInf b = PosInf"
| "js_max a PosInf = PosInf"
| "js_max NegInf b = b"
| "js_max a NegInf = a"
| "js_max (Fin a) (Fin b) = Fin (max a b)"

fun js_min :: "jsnum \<Rightarrow> jsnum \<Rightarrow> jsnum" where
  "js_min NaN b = NaN"
| "js_min a NaN = NaN"
| "js_min NegInf b = NegInf"
| "js_min a NegInf = NegInf"
| "js_min PosInf b = b"
| "js_min a PosInf = a"
| "js_min (Fin a) (Fin b) = Fin (min a b)"

subsection \<open>GET /api/rows\<close>

text \<open>
  \<^verbatim>\<open>Math.min(Math.max(1, parseInt(req.query.limit) || 150), 500)\<close> and
  \<^verbatim>\<open>Math.max(0, parseInt(req.query.offset) || 0)\<close>.
\<close>

definition effective_limit :: "jsstring option \<Rightarrow> jsnum" where
  "effective_limit q = js_min (js_max (Fin 1) (js_or (parseInt_param q) (Fin 150))) (Fin 500)"

definition effective_offset :: "jsstring option \<Rightarrow> jsnum" where
  "effective_offset q = js_max (Fin 0) (js_or (parseInt_param q) (Fin 0))"

text \<open>
  The pool of database connections, by the statements the handlers send:
  \<^verbatim>\<open>SELECT * FROM creative_tasks ORDER BY id ASC LIMIT $1 OFFSET $2\<close> with the
  values \<^verbatim>\<open>[limit, offset]\<close>, \<^verbatim>\<open>SELECT COUNT(*)::int AS total FROM
  creative_tasks\<close>, and the \<^verbatim>\<open>UPDATE\<close> statement with its text and values.
  \<open>None\<close> is a rejected query. The database itself is not part of the program:
  the handlers are stated for every pool.
\<close>

record backing_store =
  select_rows :: "jsnum \<Rightarrow> jsnum \<Rightarrow> row list option"
  count_rows :: "int option"
  exec_update :: "string \<Rightarrow> jsval list \<Rightarrow> row list option"

definition get_rows :: "backing_store \<Rightarrow> jsstring option \<Rightarrow> jsstring option \<Rightarrow> nat \<times> rows_reply" where
  "get_rows db qlimit qoffset =
     (let limit = effective_limit qlimit;
          offset = effective_offset qoffset
      in case select_rows db limit offset of
           None \<Rightarrow> (500, RowsError ''Database error'')
         | Some rows \<Rightarrow>
             (case count_rows db of
                None \<Rightarrow> (500, RowsError ''Database error'')
              | Some t \<Rightarrow> (200, RowsPage rows t limit offset)))"

subsection \<open>PATCH /api/rows/:id\<close>

text \<open>
  \<^verbatim>\<open>f.toLowerCase().replace(/\s+/g, '_')\<close>: letters to lower case (below 256
  these are A to Z and the capital letters from U+00C0 to U+00DE, the sign U+00D7
  apart), every run of blanks to one underscore.
\<close>

definition to_lower_char :: "char \<Rightarrow> char" where
  "to_lower_char c =
     (let n = (of_char c :: nat)
      in if (65 \<le> n \<and> n \<le> 90) \<or> (192 \<le> n \<and> n \<le> 222 \<and> n \<noteq> 215) then char_of (n + 32) else c)"

function squash_spaces :: "string \<Rightarrow> string" where
  "squash_spaces [] = []"
| "squash_spaces (c # cs) =
     (if is_js_space c then CHR ''_'' # squash_spaces (dropWhile is_js_space cs)
      else c # squash_spaces cs)"
  by pat_completeness auto
termination
  by (relation "measure length") (auto simp: length_dropWhile_le less_Suc_eq_le)

definition normalize_field :: "string \<Rightarrow> string" where
  "normalize_field f = squash_spaces (map to_lower_char f)"

text \<open>The decimal digits of a number, as a template literal prints it.\<close>

definition digit_char :: "nat \<Rightarrow> char" where
  "digit_char d = char_of (48 + d)"

function dec :: "nat \<Rightarrow> string" where
  "dec n = (if n < 10 then [digit_char n] else dec (n div 10) @ [digit_char (n mod 10)])"
  by pat_completeness auto
termination
  by (relation "measure id") auto

declare dec.simps [simp del]

text \<open>\<^verbatim>\<open>Array.prototype.join\<close>.\<close>

fun join :: "string \<Rightarrow> string list \<Rightarrow> string" where
  "join sep [] = []"
| "join sep [x] = x"
| "join sep (x # y # ys) = x @ sep @ join sep (y # ys)"

text \<open>
  The body of the request is the object \<^verbatim>\<open>updates\<close>, given by its properties
  in the order of \<^verbatim>\<open>Object.keys\<close> (the list \<^verbatim>\<open>fields\<close> of the source
  is \<open>keys\<close> here, its \<^verbatim>\<open>values\<close> is \<open>vals\<close>). The statement text and
  the values handed to \<^verbatim>\<open>pool.query\<close>:
\<close>

definition set_clause :: "string list \<Rightarrow> string" where
  "set_clause keys =
     join '', '' (map (\<lambda>(i, f). normalize_field f @ '' = $'' @ dec (i + 1)) (enumerate 0 keys))"

definition patch_query :: "jsnum \<Rightarrow> row \<Rightarrow> string \<times> jsval list" where
  "patch_query rid updates =
     (let keys = map fst updates;
          setClause = set_clause keys;
          vals = map (get_prop updates) keys @ [JNum rid]
      in (''UPDATE creative_tasks SET '' @ setClause @ '' WHERE id = $'' @ dec (length vals)
            @ '' RETURNING *'',
          vals))"

text \<open>
  The handler: the response (status and body) and the rows broadcast with
  \<^verbatim>\<open>io.emit('cell-updated', ...)\<close>.
\<close>

datatype patch_reply = PatchedRow row | PatchError string

definition patch_row :: "backing_store \<Rightarrow> string \<Rightarrow> row \<Rightarrow> (nat \<times> patch_reply) \<times> row list" where
  "patch_row db idParam updates =
     (let rid = parseInt idParam;
          keys = map fst updates
      in if keys = [] then ((400, PatchError ''No fields to update''), [])
         else
           (case exec_update db (fst (patch_query rid updates)) (snd (patch_query rid updates)) of
              None \<Rightarrow> ((500, PatchError ''Database error''), [])
            | Some [] \<Rightarrow> ((404, PatchError ''Row not found''), [])
            | Some (updatedRow # rest) \<Rightarrow> ((200, PatchedRow updatedRow), [updatedRow])))"

text \<open>
  A fixed-template parameterized update, to compare the generated text with: the
  same statement over a list of column names, each an SQL identifier of lower-case
  letters, digits and underscores that does not start with a digit.
\<close>

definition ident_char :: "char \<Rightarrow> bool" where
  "ident_char c \<longleftrightarrow>
     (let n = (of_char c :: nat) in (97 \<le> n \<and> n \<le> 122) \<or> (48 \<le> n \<and> n \<le> 57) \<or> n = 95)"

definition is_identifier :: "string \<Rightarrow> bool" where
  "is_identifier s \<longleftrightarrow> s \<noteq> [] \<and> list_all ident_char s \<and> \<not> (48 \<le> (of_char (hd s) :: nat) \<and> (of_char (hd s) :: nat) \<le> 57)"

definition fixed_template :: "string list \<Rightarrow> string" where
  "fixed_template cols =
     ''UPDATE creative_tasks SET ''
       @ join '', '' (map (\<lambda>(i, c). c @ '' = $'' @ dec (i + 1)) (enumerate 0 cols))
       @ '' WHERE id = $'' @ dec (length cols + 1) @ '' RETURNING *''"

section \<open>Properties of the viewer session\<close>

subsection \<open>Rows and properties\<close>

lemma get_prop_set_prop:
  "get_prop (set_prop r k v) k' = (if k' = k then v else get_prop r k')"
  by (simp add: get_prop_def set_prop_def update_conv')



subsection \<open>Running a session\<close>

lemma run_append: "run (evs @ evs') w = run evs' (run evs w)"
  by (simp add: run_def)

lemma run_snoc: "run (evs @ [ev]) w = apply_event (run evs w) ev"
  by (simp add: run_def)

text \<open>The definitions a concrete session is evaluated with.\<close>

lemmas session_eval =
  run_def session_init_def app_init_def fetchPage_def fetchPage_settled_def
  viewport_effect_def viewport_pages_def PAGE_SIZE_def ceil_div_def Let_def
  row_id_def get_prop_def set_prop_def DEMO_ERRORS_def updateCell_def updateCell_settled_def
  socket_cell_updated_def

subsection \<open>The socket handler\<close>

lemma socket_cell_updated_mapped:
  "idToIdx s (row_id u) = Some p \<Longrightarrow>
     socket_cell_updated u s = s\<lparr>rowsMap := (rowsMap s)(p \<mapsto> u), renders := renders s + 1\<rparr>"
  by (simp add: socket_cell_updated_def)

lemma socket_cell_updated_unmapped:
  "idToIdx s (row_id u) = None \<Longrightarrow> socket_cell_updated u s = s"
  by (simp add: socket_cell_updated_def)

lemma socket_cell_updated_idToIdx:
  "idToIdx (socket_cell_updated u s) = idToIdx s"
  by (simp add: socket_cell_updated_def split: option.splits)

lemma updateCell_idToIdx:
  "idToIdx (fst (updateCell rowId field val s)) = idToIdx s"
  by (simp add: updateCell_def Let_def split: option.splits)

lemma table_cell_updated_no_match:
  "\<forall>r \<in> set prev. \<not> strict_eq (row_id r) (row_id u) \<Longrightarrow> table_cell_updated u prev = prev"
  by (induction prev) (simp_all add: table_cell_updated_def)

text \<open>
  C3 (reconciliation rule). When the identity of a relayed row is mapped to a
  position \<open>p\<close>, the handler puts the incoming row at \<open>p\<close>, leaves every other
  position and the identity map as they were, and does so also right after an
  optimistic edit of that row, whose value is thereby overwritten. When the
  identity is not mapped, the whole state stays as it was. The handler of the
  \<^verbatim>\<open>Table\<close> component replaces the entries with the incoming identity and
  leaves an array without such an entry unchanged.
\<close>

theorem reconciliation_rule:
  "(idToIdx s (row_id u) = Some p \<longrightarrow>
      rowsMap (socket_cell_updated u s) p = Some u
      \<and> (\<forall>q. q \<noteq> p \<longrightarrow> rowsMap (socket_cell_updated u s) q = rowsMap s q)
      \<and> idToIdx (socket_cell_updated u s) = idToIdx s
      \<and> rowsMap (socket_cell_updated u (fst (updateCell rowId field val s))) p = Some u)
   \<and> (idToIdx s (row_id u) = None \<longrightarrow> socket_cell_updated u s = s)
   \<and> length (table_cell_updated u prev) = length prev
   \<and> (\<forall>i < length prev. table_cell_updated u prev ! i =
         (if strict_eq (row_id (prev ! i)) (row_id u) then u else prev ! i))
   \<and> ((\<forall>r \<in> set prev. \<not> strict_eq (row_id r) (row_id u)) \<longrightarrow> table_cell_updated u prev = prev)"
proof -
  have mapped: "rowsMap (socket_cell_updated u s') p = Some u"
    if "idToIdx s' (row_id u) = Some p" for s'
    using that by (simp add: socket_cell_updated_mapped)
  have "idToIdx (fst (updateCell rowId field val s)) (row_id u) = Some p"
    if "idToIdx s (row_id u) = Some p"
    using that by (simp add: updateCell_idToIdx)
  then have after_edit:
    "idToIdx s (row_id u) = Some p \<longrightarrow>
       rowsMap (socket_cell_updated u (fst (updateCell rowId field val s))) p = Some u"
    using mapped by blast
  have others: "idToIdx s (row_id u) = Some p \<longrightarrow>
      (\<forall>q. q \<noteq> p \<longrightarrow> rowsMap (socket_cell_updated u s) q = rowsMap s q)"
    by (simp add: socket_cell_updated_mapped)
  have tbl: "\<forall>i < length prev. table_cell_updated u prev ! i =
         (if strict_eq (row_id (prev ! i)) (row_id u) then u else prev ! i)"
    by (simp add: table_cell_updated_def)
  have len: "length (table_cell_updated u prev) = length prev"
    by (simp add: table_cell_updated_def)
  show ?thesis
    using mapped [of s] after_edit others tbl len
    by (simp add: socket_cell_updated_idToIdx socket_cell_updated_unmapped
        table_cell_updated_no_match)
qed

theorem reconciliation_rule_witness:
  "idToIdx (app_init\<lparr>rowsMap := [41 \<mapsto> [(''id'', JNum (Fin 42)), (''status'', JStr ''Planned'')]],
                      idToIdx := [JNum (Fin 42) \<mapsto> 41]\<rparr>)
     (row_id [(''id'', JNum (Fin 42)), (''status'', JStr ''Done'')]) = Some 41
   \<and> rowsMap (socket_cell_updated [(''id'', JNum (Fin 42)), (''status'', JStr ''Done'')]
        (fst (updateCell (JNum (Fin 42)) ''status'' ''Draft''
          (app_init\<lparr>rowsMap := [41 \<mapsto> [(''id'', JNum (Fin 42)), (''status'', JStr ''Planned'')]],
                      idToIdx := [JNum (Fin 42) \<mapsto> 41]\<rparr>)))) 41
       = Some [(''id'', JNum (Fin 42)), (''status'', JStr ''Done'')]
   \<and> idToIdx app_init (row_id [(''id'', JNum (Fin 42)), (''status'', JStr ''Done'')]) = None
   \<and> socket_cell_updated [(''id'', JNum (Fin 42)), (''status'', JStr ''Done'')] app_init = app_init
   \<and> (0::nat) < length [[(''id'', JNum (Fin 42))], [(''id'', JNum (Fin 43))]]
   \<and> table_cell_updated [(''id'', JNum (Fin 42)), (''status'', JStr ''Done'')]
        [[(''id'', JNum (Fin 42))], [(''id'', JNum (Fin 43))]] ! 0
       = [(''id'', JNum (Fin 42)), (''status'', JStr ''Done'')]
   \<and> \<not> strict_eq (row_id [(''id'', JNum (Fin 43))])
         (row_id [(''id'', JNum (Fin 42)), (''status'', JStr ''Done'')])
   \<and> table_cell_updated [(''id'', JNum (Fin 42)), (''status'', JStr ''Done'')] [[(''id'', JNum (Fin 43))]]
       = [[(''id'', JNum (Fin 43))]]"
  using reconciliation_rule [of
      "app_init\<lparr>rowsMap := [41 \<mapsto> [(''id'', JNum (Fin 42)), (''status'', JStr ''Planned'')]],
                 idToIdx := [JNum (Fin 42) \<mapsto> 41]\<rparr>"
      "[(''id'', JNum (Fin 42)), (''status'', JStr ''Done'')]" 41
      "JNum (Fin 42)" "''status''" "''Draft''"
      "[[(''id'', JNum (Fin 42))], [(''id'', JNum (Fin 43))]]"]
    reconciliation_rule [of app_init
      "[(''id'', JNum (Fin 42)), (''status'', JStr ''Done'')]" 0
      "JNum (Fin 42)" "''status''" "''Draft''"
      "[[(''id'', JNum (Fin 43))]]"]
  by (simp add: app_init_def row_id_def get_prop_def strict_eq_def)

text \<open>
  C7 (idempotence of the realtime handler). Applying the same row update twice
  leaves the row store, the identity map and every other field as one
  application does; only the render counter has advanced once more.
\<close>

theorem cell_updated_idempotent:
  "rowsMap (socket_cell_updated u (socket_cell_updated u s)) = rowsMap (socket_cell_updated u s)
   \<and> idToIdx (socket_cell_updated u (socket_cell_updated u s)) = idToIdx (socket_cell_updated u s)
   \<and> socket_cell_updated u (socket_cell_updated u s)
       = (socket_cell_updated u s)\<lparr>renders := renders (socket_cell_updated u (socket_cell_updated u s))\<rparr>
   \<and> table_cell_updated u (table_cell_updated u prev) = table_cell_updated u prev"
proof (cases "idToIdx s (row_id u)")
  case None
  then show ?thesis
    by (simp add: socket_cell_updated_def table_cell_updated_def)
next
  case (Some p)
  then show ?thesis
    by (simp add: socket_cell_updated_def table_cell_updated_def)
qed

subsection \<open>The fetch ledger\<close>

lemma store_rows_ledger:
  "fetchedPages (store_rows idx rows s) = fetchedPages s
   \<and> fetchingPages (store_rows idx rows s) = fetchingPages s
   \<and> total (store_rows idx rows s) = total s"
  by (induction rows arbitrary: idx s) (simp_all add: Let_def)

lemma fetchPage_settled_fetching:
  "fetchingPages (fetchPage_settled p out s) = fetchingPages s - {p}"
  by (simp add: fetchPage_settled_def Let_def store_rows_ledger split: fetch_outcome.splits)

lemma fetchPage_settled_fetched:
  "fetchedPages (fetchPage_settled p out s) =
     (case out of FetchRejected \<Rightarrow> fetchedPages s | FetchResponded status json \<Rightarrow> insert p (fetchedPages s))"
  by (simp add: fetchPage_settled_def Let_def store_rows_ledger split: fetch_outcome.splits)

lemma fetchPages_Cons:
  "fetchPages (p # ps) s =
     (fst (fetchPages ps (fst (fetchPage p s))),
      snd (fetchPage p s) @ snd (fetchPages ps (fst (fetchPage p s))))"
  by (simp add: case_prod_unfold Let_def)

lemma fetchPages_issued:
  "fetchPages ps s =
     (s\<lparr>fetchingPages := fetchingPages s \<union> set (snd (fetchPages ps s))\<rparr>, snd (fetchPages ps s))
   \<and> distinct (snd (fetchPages ps s))
   \<and> set (snd (fetchPages ps s)) \<subseteq> set ps - (fetchedPages s \<union> fetchingPages s)"
proof (induction ps arbitrary: s)
  case Nil
  then show ?case by simp
next
  case (Cons p ps)
  show ?case
  proof (cases "p \<in> fetchedPages s \<or> p \<in> fetchingPages s")
    case True
    then have "fetchPage p s = (s, [])" by (auto simp: fetchPage_def)
    then show ?thesis using Cons.IH [of s] by (auto simp: fetchPages_Cons simp del: fetchPages.simps)
  next
    case False
    let ?s1 = "s\<lparr>fetchingPages := insert p (fetchingPages s)\<rparr>"
    from False have fp: "fetchPage p s = (?s1, [p])" by (simp add: fetchPage_def)
    have ih: "fetchPages ps ?s1 =
       (?s1\<lparr>fetchingPages := fetchingPages ?s1 \<union> set (snd (fetchPages ps ?s1))\<rparr>, snd (fetchPages ps ?s1))"
      and d: "distinct (snd (fetchPages ps ?s1))"
      and sub: "set (snd (fetchPages ps ?s1)) \<subseteq> set ps - (fetchedPages ?s1 \<union> fetchingPages ?s1)"
      using Cons.IH [of ?s1] by blast+
    have snd_eq: "snd (fetchPages (p # ps) s) = p # snd (fetchPages ps ?s1)"
      using fp by (simp add: fetchPages_Cons del: fetchPages.simps)
    have fst_eq: "fst (fetchPages (p # ps) s) = fst (fetchPages ps ?s1)"
      using fp by (simp add: fetchPages_Cons del: fetchPages.simps)
    have "fst (fetchPages ps ?s1) = s\<lparr>fetchingPages := fetchingPages s \<union> set (p # snd (fetchPages ps ?s1))\<rparr>"
      by (subst ih) simp
    then have a: "fetchPages (p # ps) s =
       (s\<lparr>fetchingPages := fetchingPages s \<union> set (snd (fetchPages (p # ps) s))\<rparr>, snd (fetchPages (p # ps) s))"
      using fst_eq snd_eq by (simp add: prod_eq_iff)
    have b: "distinct (snd (fetchPages (p # ps) s))"
      using d sub snd_eq by auto
    have c: "set (snd (fetchPages (p # ps) s)) \<subseteq> set (p # ps) - (fetchedPages s \<union> fetchingPages s)"
      using sub snd_eq False by auto
    show ?thesis using a b c by blast
  qed
qed

lemma fetchPages_filter:
  "distinct ps \<Longrightarrow>
     snd (fetchPages ps s) = filter (\<lambda>p. p \<notin> fetchedPages s \<and> p \<notin> fetchingPages s) ps"
proof (induction ps arbitrary: s)
  case Nil
  then show ?case by simp
next
  case (Cons p ps)
  show ?case
  proof (cases "p \<in> fetchedPages s \<or> p \<in> fetchingPages s")
    case True
    then have "fetchPage p s = (s, [])" by (auto simp: fetchPage_def)
    then show ?thesis using Cons.IH [of s] Cons.prems True
      by (auto simp: fetchPages_Cons simp del: fetchPages.simps)
  next
    case False
    let ?s1 = "s\<lparr>fetchingPages := insert p (fetchingPages s)\<rparr>"
    from False have fp: "fetchPage p s = (?s1, [p])" by (simp add: fetchPage_def)
    have "snd (fetchPages ps ?s1) = filter (\<lambda>q. q \<notin> fetchedPages ?s1 \<and> q \<notin> fetchingPages ?s1) ps"
      using Cons.IH [of ?s1] Cons.prems by simp
    also have "\<dots> = filter (\<lambda>q. q \<notin> fetchedPages s \<and> q \<notin> fetchingPages s) ps"
      using Cons.prems by (intro filter_cong) auto
    finally show ?thesis using fp False by (simp add: fetchPages_Cons del: fetchPages.simps)
  qed
qed

lemma fetchPage_as_fetchPages: "fetchPage p s = fetchPages [p] s"
  by (simp add: case_prod_unfold)

lemma count_list_remove1:
  "count_list (remove1 x xs) y = count_list xs y - (if x = y \<and> x \<in> set xs then 1 else 0)"
  by (induction xs) auto

lemma count_list_distinct:
  "distinct xs \<Longrightarrow> count_list xs y = (if y \<in> set xs then 1 else 0)"
  by (induction xs) auto

lemma ledger_inv_issue:
  assumes "ledger_inv w"
  shows "ledger_inv (w\<lparr>st := fst (fetchPages ps (st w)),
                      pendingFetches := pendingFetches w @ snd (fetchPages ps (st w))\<rparr>)"
proof -
  let ?reqs = "snd (fetchPages ps (st w))"
  have st': "fst (fetchPages ps (st w)) = (st w)\<lparr>fetchingPages := fetchingPages (st w) \<union> set ?reqs\<rparr>"
    using fetchPages_issued [of ps "st w"] by (metis fst_conv)
  have d: "distinct ?reqs"
    and sub: "set ?reqs \<subseteq> set ps - (fetchedPages (st w) \<union> fetchingPages (st w))"
    using fetchPages_issued [of ps "st w"] by blast+
  have cnt: "count_list (pendingFetches w) p = (if p \<in> fetchingPages (st w) then 1 else 0)" for p
    using assms by (simp add: ledger_inv_def)
  have disj: "fetchedPages (st w) \<inter> fetchingPages (st w) = {}"
    using assms by (simp add: ledger_inv_def)
  have "count_list (pendingFetches w @ ?reqs) p =
          (if p \<in> fetchingPages (st w) \<union> set ?reqs then 1 else 0)" for p
    using cnt [of p] count_list_distinct [OF d, of p] sub by auto
  moreover have "fetchedPages (st w) \<inter> (fetchingPages (st w) \<union> set ?reqs) = {}"
    using disj sub by auto
  ultimately show ?thesis
    by (simp add: ledger_inv_def st')
qed

lemma ledger_inv_step:
  assumes "ledger_inv w"
  shows "ledger_inv (apply_event w ev)"
proof (cases ev)
  case Mount
  then show ?thesis
    using ledger_inv_issue [OF assms, of "[0]"]
    by (simp add: fetchPage_as_fetchPages case_prod_unfold Let_def del: fetchPages.simps)
next
  case (Viewport vs)
  then show ?thesis
    using ledger_inv_issue [OF assms, of "viewport_pages vs (total (st w))"]
    by (simp add: viewport_effect_def case_prod_unfold Let_def del: fetchPages.simps)
next
  case (FetchSettled page out)
  show ?thesis
  proof (cases "page \<in> set (pendingFetches w)")
    case False
    then show ?thesis using assms FetchSettled by simp
  next
    case True
    have cnt: "count_list (pendingFetches w) p = (if p \<in> fetchingPages (st w) then 1 else 0)" for p
      using assms by (simp add: ledger_inv_def)
    have disj: "fetchedPages (st w) \<inter> fetchingPages (st w) = {}"
      using assms by (simp add: ledger_inv_def)
    have "count_list (pendingFetches w) page \<noteq> 0"
      using True by (simp add: count_list_0_iff)
    then have inflight: "page \<in> fetchingPages (st w)"
      using cnt [of page] by (simp split: if_splits)
    have c': "count_list (remove1 page (pendingFetches w)) p =
                (if p \<in> fetchingPages (st w) - {page} then 1 else 0)" for p
      using cnt [of p] True by (auto simp: count_list_remove1)
    have d': "fetchedPages (fetchPage_settled page out (st w)) \<inter> (fetchingPages (st w) - {page}) = {}"
      using disj by (auto simp: fetchPage_settled_fetched split: fetch_outcome.splits)
    show ?thesis
      using True FetchSettled c' d'
      by (simp add: ledger_inv_def fetchPage_settled_fetching)
  qed
next
  case (CellUpdated u)
  then show ?thesis
    using assms by (simp add: ledger_inv_def socket_cell_updated_def split: option.splits)
next
  case (CommitEdit rowId field val)
  then show ?thesis
    using assms by (simp add: ledger_inv_def updateCell_def Let_def split: option.splits)
next
  case (WriteSettled req out)
  then show ?thesis
    using assms by (simp add: ledger_inv_def updateCell_settled_def split: write_outcome.splits)
qed

lemma ledger_inv_run: "ledger_inv w \<Longrightarrow> ledger_inv (run evs w)"
  by (induction evs rule: rev_induct) (simp_all add: run_def ledger_inv_step)

lemma ledger_inv_init: "ledger_inv session_init"
  by (simp add: ledger_inv_def session_init_def app_init_def)

lemma fetched_mono_step: "fetchedPages (st w) \<subseteq> fetchedPages (st (apply_event w ev))"
proof (cases ev)
  case Mount
  then show ?thesis by (auto simp: fetchPage_def case_prod_unfold)
next
  case (Viewport vs)
  have "fetchedPages (fst (fetchPages ps s)) = fetchedPages s" for ps s
    using fetchPages_issued [of ps s] by (metis (no_types, lifting) fst_conv app_state.select_convs(3) app_state.surjective app_state.update_convs(4))
  with Viewport show ?thesis by (simp add: viewport_effect_def case_prod_unfold Let_def)
next
  case (FetchSettled page out)
  then show ?thesis by (auto simp: fetchPage_settled_fetched split: fetch_outcome.splits)
next
  case (CellUpdated u)
  then show ?thesis by (simp add: socket_cell_updated_def split: option.splits)
next
  case (CommitEdit rowId field val)
  then show ?thesis by (simp add: updateCell_def Let_def split: option.splits)
next
  case (WriteSettled req out)
  then show ?thesis by (simp add: updateCell_settled_def split: write_outcome.splits)
qed

lemma fetched_mono_run: "fetchedPages (st w) \<subseteq> fetchedPages (st (run evs w))"
proof (induction evs rule: rev_induct)
  case Nil
  then show ?case by (simp add: run_def)
next
  case (snoc ev evs)
  then show ?case using fetched_mono_step [of "run evs w" ev] by (auto simp: run_snoc)
qed

text \<open>
  C2 (fetch ledger). A call of \<^verbatim>\<open>fetchPage\<close> for a page that is in flight, or
  that is fetched, sends nothing and changes nothing. In every session, a page
  that is in the fetched set stays there through all later events and has no
  waiting request afterwards, so it is never requested again; and at every
  moment at most one request for a given page is outstanding, and no page is both
  fetched and in flight.
\<close>

theorem fetch_ledger_invariant:
  "(p \<in> fetchingPages s \<longrightarrow> fetchPage p s = (s, []))
   \<and> (p \<in> fetchedPages s \<longrightarrow> fetchPage p s = (s, []))
   \<and> (p \<in> fetchedPages (st (run evs session_init)) \<longrightarrow>
        p \<in> fetchedPages (st (run (evs @ evs') session_init))
        \<and> p \<notin> set (pendingFetches (run (evs @ evs') session_init)))
   \<and> count_list (pendingFetches (run evs session_init)) p \<le> 1
   \<and> fetchedPages (st (run evs session_init)) \<inter> fetchingPages (st (run evs session_init)) = {}"
proof -
  have inv: "ledger_inv (run es session_init)" for es
    by (rule ledger_inv_run [OF ledger_inv_init])
  have le1: "count_list (pendingFetches (run evs session_init)) p \<le> 1"
    using inv [of evs] by (simp add: ledger_inv_def)
  have later: "p \<in> fetchedPages (st (run (evs @ evs') session_init))
        \<and> p \<notin> set (pendingFetches (run (evs @ evs') session_init))"
    if "p \<in> fetchedPages (st (run evs session_init))"
  proof -
    let ?w = "run (evs @ evs') session_init"
    have f: "p \<in> fetchedPages (st ?w)"
      using that fetched_mono_run [of "run evs session_init" evs'] by (auto simp: run_append)
    have "p \<notin> fetchingPages (st ?w)"
      using inv [of "evs @ evs'"] f by (auto simp: ledger_inv_def)
    then have "count_list (pendingFetches ?w) p = 0"
      using inv [of "evs @ evs'"] by (simp add: ledger_inv_def)
    then show ?thesis using f by (simp add: count_list_0_iff)
  qed
  have disj: "fetchedPages (st (run evs session_init)) \<inter> fetchingPages (st (run evs session_init)) = {}"
    using inv [of evs] by (simp add: ledger_inv_def)
  show ?thesis
    using le1 later disj by (simp add: fetchPage_def)
qed

theorem fetch_ledger_invariant_witness:
  "0 \<in> fetchingPages (app_init\<lparr>fetchingPages := {0}\<rparr>)
   \<and> fetchPage 0 (app_init\<lparr>fetchingPages := {0}\<rparr>) = (app_init\<lparr>fetchingPages := {0}\<rparr>, [])
   \<and> 0 \<in> fetchedPages (app_init\<lparr>fetchedPages := {0}\<rparr>)
   \<and> fetchPage 0 (app_init\<lparr>fetchedPages := {0}\<rparr>) = (app_init\<lparr>fetchedPages := {0}\<rparr>, [])
   \<and> 0 \<in> fetchedPages (st (run [Mount,
          FetchSettled 0 (FetchResponded 200 (RowsPage [[(''id'', JNum (Fin 1))]] 1 (Fin 150) (Fin 0)))]
          session_init))
   \<and> 0 \<in> fetchedPages (st (run ([Mount,
          FetchSettled 0 (FetchResponded 200 (RowsPage [[(''id'', JNum (Fin 1))]] 1 (Fin 150) (Fin 0)))]
          @ [Mount, Viewport [0]]) session_init))
   \<and> 0 \<notin> set (pendingFetches (run ([Mount,
          FetchSettled 0 (FetchResponded 200 (RowsPage [[(''id'', JNum (Fin 1))]] 1 (Fin 150) (Fin 0)))]
          @ [Mount, Viewport [0]]) session_init))
   \<and> count_list (pendingFetches (run [Mount, Mount, Viewport [0]] session_init)) 0 = 1"
  using fetch_ledger_invariant [of 0 "app_init\<lparr>fetchingPages := {0}\<rparr>" "[]" "[]"]
    fetch_ledger_invariant [of 0 "app_init\<lparr>fetchedPages := {0}\<rparr>"
      "[Mount, FetchSettled 0 (FetchResponded 200 (RowsPage [[(''id'', JNum (Fin 1))]] 1 (Fin 150) (Fin 0)))]"
      "[Mount, Viewport [0]]"]
    fetch_ledger_invariant [of 0 app_init "[Mount, Mount, Viewport [0]]" "[]"]
  by (simp add: run_def session_init_def app_init_def fetchPage_def fetchPage_settled_def
      viewport_effect_def viewport_pages_def PAGE_SIZE_def ceil_div_def Let_def
      row_id_def get_prop_def DEMO_ERRORS_def)

subsection \<open>Failure of a page request\<close>

text \<open>
  When the promise is rejected, the page leaves the in-flight set only, and a
  later call of \<^verbatim>\<open>fetchPage\<close> for it sends a request again.
\<close>

lemma fetch_rejected_releases:
  "fetchPage_settled p FetchRejected s = s\<lparr>fetchingPages := fetchingPages s - {p}\<rparr>
   \<and> (p \<notin> fetchedPages s \<longrightarrow>
        snd (fetchPage p (fetchPage_settled p FetchRejected s)) = [p])"
  by (simp add: fetchPage_settled_def fetchPage_def)

text \<open>
  C6 (fetch failure release) at the failing input. When a query of the backing
  store is rejected, the server answers the page request with status 500 and the
  body \<^verbatim>\<open>{ error: 'Database error' }\<close>. For the client the promise is
  fulfilled, \<^verbatim>\<open>json.data ?? []\<close> is the empty list and
  \<^verbatim>\<open>json.total ?? 0\<close> is 0: the page is added to the fetched set, the total
  becomes 0, and no later call of \<^verbatim>\<open>fetchPage\<close> requests the page again.
\<close>

theorem fetch_error_reply_marks_page_fetched:
  "get_rows \<lparr> select_rows = (\<lambda>l off. None), count_rows = Some 50000,
              exec_update = (\<lambda>t v. None) \<rparr> (Some (units_of ''150'')) (Some (units_of ''0''))
     = (500, RowsError ''Database error'')
   \<and> fetchPage_settled p (FetchResponded 500 (RowsError ''Database error'')) s
     = s\<lparr>fetchedPages := insert p (fetchedPages s),
          fetchingPages := fetchingPages s - {p},
          total := 0,
          loadedCount := card (dom (rowsMap s)),
          renders := renders s + 1\<rparr>
   \<and> snd (fetchPage p (fetchPage_settled p (FetchResponded 500 (RowsError ''Database error'')) s)) = []
   \<and> 0 \<in> fetchedPages (st (run
        [Mount, FetchSettled 0 (FetchResponded 500 (RowsError ''Database error''))] session_init))
   \<and> total (st (run
        [Mount, FetchSettled 0 (FetchResponded 200 (RowsPage [[(''id'', JNum (Fin 1))]] 50000 (Fin 150) (Fin 0))),
         Viewport [0], FetchSettled 1 (FetchResponded 500 (RowsError ''Database error''))]
        session_init)) = 0
   \<and> pendingFetches (run
        [Mount, FetchSettled 0 (FetchResponded 500 (RowsError ''Database error'')), Mount, Viewport [0]]
        session_init) = []"
  by (simp add: session_eval upto.simps get_rows_def)

subsection \<open>The viewport effect\<close>

lemma div150_bounds:
  fixes x d m q :: int
  assumes "x = 150 * d + m" "0 \<le> m" "m < 150"
  shows "q * 150 \<le> x \<longleftrightarrow> q \<le> d" and "x < (q + 1) * 150 \<longleftrightarrow> d \<le> q"
  using assms by auto

lemma page_meets_iff:
  "page_meets q lo hi \<longleftrightarrow> lo div 150 \<le> q \<and> q \<le> hi div 150"
proof -
  have a: "q * 150 \<le> hi \<longleftrightarrow> q \<le> hi div 150"
    by (rule div150_bounds(1) [of hi "hi div 150" "hi mod 150"]) simp_all
  have b: "lo < (q + 1) * 150 \<longleftrightarrow> lo div 150 \<le> q"
    by (rule div150_bounds(2) [of lo "lo div 150" "lo mod 150"]) simp_all
  show ?thesis
    unfolding page_meets_def PAGE_SIZE_def using a b by blast
qed

lemma widened_cover_interval:
  assumes "lo \<le> hi" "0 \<le> b" "0 \<le> a"
  shows "(\<exists>q. page_meets q lo hi \<and> q - b \<le> p \<and> p \<le> q + a)
         \<longleftrightarrow> lo div 150 - b \<le> p \<and> p \<le> hi div 150 + a"
proof
  assume "\<exists>q. page_meets q lo hi \<and> q - b \<le> p \<and> p \<le> q + a"
  then show "lo div 150 - b \<le> p \<and> p \<le> hi div 150 + a"
    by (auto simp: page_meets_iff)
next
  assume r: "lo div 150 - b \<le> p \<and> p \<le> hi div 150 + a"
  have m: "lo div 150 \<le> hi div 150" using assms(1) by (simp add: zdiv_mono1)
  define q where "q = max (lo div 150) (min (hi div 150) p)"
  have "page_meets q lo hi \<and> q - b \<le> p \<and> p \<le> q + a"
    using r m assms(2,3) by (auto simp: page_meets_iff q_def)
  then show "\<exists>q. page_meets q lo hi \<and> q - b \<le> p \<and> p \<le> q + a" by blast
qed

lemma sorted_hd_Min: "sorted xs \<Longrightarrow> xs \<noteq> [] \<Longrightarrow> hd xs = Min (set xs)"
  by (cases xs) (auto intro!: Min_eqI [symmetric])

lemma sorted_le_last: "sorted xs \<Longrightarrow> x \<in> set xs \<Longrightarrow> x \<le> last xs"
  by (induction xs) auto

lemma sorted_last_Max: "sorted xs \<Longrightarrow> xs \<noteq> [] \<Longrightarrow> last xs = Max (set xs)"
  by (auto intro!: Max_eqI [symmetric] simp: sorted_le_last)

lemma hd_upto_int: "i \<le> j \<Longrightarrow> hd [i..j] = i"
  by (simp add: upto_rec1)

lemma last_upto_int: "i \<le> j \<Longrightarrow> last [i..j] = j"
  by (simp add: upto_rec2)

lemma upto_not_Nil: "i \<le> j \<Longrightarrow> [i..j] \<noteq> []"
  by (simp add: upto_rec1)

lemma viewport_pages_set:
  assumes "vs \<noteq> []" "sorted vs" "tot \<noteq> 0"
  shows "set (viewport_pages vs tot) = widened_cover 1 2 vs tot"
proof -
  have le: "Min (set vs) \<le> Max (set vs)" using assms(1) by simp
  have "set (viewport_pages vs tot) =
      {p. max 0 (Min (set vs) div 150 - 1) \<le> p
          \<and> p \<le> min (Max (set vs) div 150 + 2) (ceil_div tot 150 - 1)}"
    using assms by (auto simp: viewport_pages_def Let_def PAGE_SIZE_def sorted_hd_Min sorted_last_Max)
  also have "\<dots> = widened_cover 1 2 vs tot"
    unfolding widened_cover_def using widened_cover_interval [OF le, of 1 2]
    by (auto simp: PAGE_SIZE_def)
  finally show ?thesis .
qed

lemma upto_0_2: "[0..2::int] = [0, 1, 2]"
  by (simp add: upto.simps)

lemma vp_scenario: "viewport_pages [0..29] 50000 = [0, 1, 2]"
  by (simp add: viewport_pages_def Let_def PAGE_SIZE_def ceil_div_def hd_upto_int last_upto_int
      upto_not_Nil upto_0_2)

text \<open>
  The claim C5 as the specification states it (one page on each side) fails: with
  the positions 0 to 29 visible and 50000 rows, the effect calls
  \<^verbatim>\<open>fetchPage\<close> for page 2 as well.
\<close>

theorem one_page_widening_counterexample:
  "set (viewport_pages [0..29] 50000) \<noteq> spec_cover_pages [0..29] 50000"
proof -
  have in_code: "2 \<in> set (viewport_pages [0..29] 50000)"
    by (simp add: vp_scenario)
  have "Min (set [0..29::int]) \<le> Max (set [0..29::int])" by simp
  from widened_cover_interval [OF this, of 1 1 2]
  have "2 \<notin> spec_cover_pages [0..29] 50000"
    using sorted_hd_Min [of "[0..29::int]"] sorted_last_Max [of "[0..29::int]"]
    by (simp add: spec_cover_pages_def widened_cover_def hd_upto_int last_upto_int upto_not_Nil
        del: set_upto)
  with in_code show ?thesis by blast
qed

text \<open>
  C5 (page coverage), amended. With visible rows (listed in ascending order, as the
  virtualizer does) and a total other than 0, the effect calls \<^verbatim>\<open>fetchPage\<close>
  for exactly the valid pages that meet the visible span widened by one page
  below and two pages above; with no visible row or a total of 0 it calls it for
  none. A request goes out for exactly those of these pages that are neither
  fetched nor in flight, and these become in flight.
\<close>

theorem viewport_coverage:
  "(virtualRows \<noteq> [] \<and> sorted virtualRows \<and> total s \<noteq> 0 \<longrightarrow>
      set (viewport_pages virtualRows (total s)) = widened_cover 1 2 virtualRows (total s))
   \<and> (virtualRows = [] \<or> total s = 0 \<longrightarrow> viewport_pages virtualRows (total s) = [])
   \<and> snd (viewport_effect virtualRows s) =
       filter (\<lambda>p. p \<notin> fetchedPages s \<and> p \<notin> fetchingPages s)
         (viewport_pages virtualRows (total s))
   \<and> fst (viewport_effect virtualRows s) =
       s\<lparr>fetchingPages := fetchingPages s \<union> set (snd (viewport_effect virtualRows s))\<rparr>"
proof -
  have d: "distinct (viewport_pages virtualRows (total s))"
    by (simp add: viewport_pages_def Let_def)
  have st: "fst (viewport_effect virtualRows s) =
       s\<lparr>fetchingPages := fetchingPages s \<union> set (snd (viewport_effect virtualRows s))\<rparr>"
    unfolding viewport_effect_def
    using fetchPages_issued [of "viewport_pages virtualRows (total s)" s] by (metis fst_conv)
  show ?thesis
    using st fetchPages_filter [OF d, of s] viewport_pages_set [of virtualRows "total s"]
    by (auto simp: viewport_effect_def viewport_pages_def)
qed

theorem viewport_coverage_witness:
  "[0..29] \<noteq> [] \<and> sorted [0..29::int] \<and> total (app_init\<lparr>total := 50000, fetchedPages := {0}\<rparr>) \<noteq> 0
   \<and> set (viewport_pages [0..29] (total (app_init\<lparr>total := 50000, fetchedPages := {0}\<rparr>)))
        = widened_cover 1 2 [0..29] 50000
   \<and> set (viewport_pages [0..29] 50000) = {0, 1, 2}
   \<and> snd (viewport_effect [0..29] (app_init\<lparr>total := 50000, fetchedPages := {0}\<rparr>)) = [1, 2]
   \<and> total app_init = 0
   \<and> viewport_pages [0..29] (total app_init) = []"
  using viewport_coverage [of "[0..29]" "app_init\<lparr>total := 50000, fetchedPages := {0}\<rparr>"]
    viewport_coverage [of "[0..29]" app_init]
  by (simp add: app_init_def vp_scenario upto_not_Nil)

subsection \<open>The row store over a session\<close>


lemma store_rows_mapped_filled:
  "mapped_filled s \<Longrightarrow> mapped_filled (store_rows idx rows s)"
proof (induction rows arbitrary: idx s)
  case Nil
  then show ?case by simp
next
  case (Cons r rows)
  let ?r' = "case DEMO_ERRORS (row_id r) of None \<Rightarrow> r | Some e \<Rightarrow> set_prop r ''marcus_error'' e"
  let ?s1 = "s\<lparr>rowsMap := (rowsMap s)(idx \<mapsto> ?r'), idToIdx := (idToIdx s)(row_id ?r' \<mapsto> idx)\<rparr>"
  have "mapped_filled ?s1"
    using Cons.prems by (simp add: mapped_filled_def)
  from Cons.IH [OF this] show ?case by (simp add: Let_def)
qed

lemma fetchPage_settled_store:
  "rowsMap (fetchPage_settled page out s) =
     (case out of FetchRejected \<Rightarrow> rowsMap s
      | FetchResponded status json \<Rightarrow>
          rowsMap (store_rows (page * PAGE_SIZE) (case json_data json of None \<Rightarrow> [] | Some d \<Rightarrow> d) s))"
  "idToIdx (fetchPage_settled page out s) =
     (case out of FetchRejected \<Rightarrow> idToIdx s
      | FetchResponded status json \<Rightarrow>
          idToIdx (store_rows (page * PAGE_SIZE) (case json_data json of None \<Rightarrow> [] | Some d \<Rightarrow> d) s))"
  by (simp_all add: fetchPage_settled_def Let_def split: fetch_outcome.splits)

lemma fetchPages_store:
  "rowsMap (fst (fetchPages ps s)) = rowsMap s" "idToIdx (fst (fetchPages ps s)) = idToIdx s"
proof -
  have "fst (fetchPages ps s) = s\<lparr>fetchingPages := fetchingPages s \<union> set (snd (fetchPages ps s))\<rparr>"
    using fetchPages_issued [of ps s] by (metis fst_conv)
  then show "rowsMap (fst (fetchPages ps s)) = rowsMap s" "idToIdx (fst (fetchPages ps s)) = idToIdx s"
    by simp_all
qed

text \<open>The three invariants only read the two maps.\<close>

lemma store_invs_cong:
  assumes "rowsMap s' = rowsMap s" "idToIdx s' = idToIdx s"
  shows "store_consistent s' = store_consistent s"
    and "positions_agree pos s' = positions_agree pos s"
    and "mapped_filled s' = mapped_filled s"
  using assms by (simp_all add: store_consistent_def positions_agree_def mapped_filled_def)

lemma fetchPages_store_invs:
  "store_consistent (fst (fetchPages ps s)) = store_consistent s"
  "positions_agree pos (fst (fetchPages ps s)) = positions_agree pos s"
  "mapped_filled (fst (fetchPages ps s)) = mapped_filled s"
  by (simp_all add: store_consistent_def positions_agree_def mapped_filled_def fetchPages_store)


lemma updateCell_mapped_filled:
  "mapped_filled s \<Longrightarrow> mapped_filled (fst (updateCell rowId field val s))"
  by (auto simp: updateCell_def mapped_filled_def Let_def split: option.splits)


lemma socket_cell_updated_mapped_filled:
  "mapped_filled s \<Longrightarrow> mapped_filled (socket_cell_updated u s)"
  by (auto simp: socket_cell_updated_def mapped_filled_def split: option.splits)



lemma apply_event_mapped_filled:
  assumes "mapped_filled (st w)"
  shows "mapped_filled (st (apply_event w ev))"
proof (cases ev)
  case Mount
  then show ?thesis
    using assms
    by (simp add: fetchPage_as_fetchPages case_prod_unfold Let_def fetchPages_store_invs
        del: fetchPages.simps)
next
  case (Viewport vs)
  then show ?thesis
    using assms
    by (simp add: viewport_effect_def case_prod_unfold Let_def fetchPages_store_invs)
next
  case (FetchSettled page out)
  have "mapped_filled (fetchPage_settled page out (st w))"
  proof (cases out)
    case FetchRejected
    then show ?thesis using assms by (simp add: fetchPage_settled_def mapped_filled_def)
  next
    case (FetchResponded status json)
    define rows where "rows = (case json_data json of None \<Rightarrow> [] | Some d \<Rightarrow> d)"
    have "mapped_filled (store_rows (page * PAGE_SIZE) rows (st w))"
      by (rule store_rows_mapped_filled [OF assms])
    then show ?thesis
      using store_invs_cong(3) [of "fetchPage_settled page out (st w)"
          "store_rows (page * PAGE_SIZE) rows (st w)"]
      by (simp add: fetchPage_settled_store FetchResponded rows_def)
  qed
  then show ?thesis using FetchSettled assms by simp
next
  case (CellUpdated u)
  then show ?thesis using socket_cell_updated_mapped_filled [OF assms] by simp
next
  case (CommitEdit rowId field val)
  then show ?thesis
    using updateCell_mapped_filled [OF assms] by (simp add: case_prod_unfold Let_def)
next
  case (WriteSettled req out)
  then show ?thesis
    using assms by (simp add: updateCell_settled_def split: write_outcome.splits)
qed

lemma run_mapped_filled: "mapped_filled (st (run evs session_init))"
proof (induction evs rule: rev_induct)
  case Nil
  then show ?case by (simp add: run_def session_init_def app_init_def mapped_filled_def)
next
  case (snoc ev evs)
  then show ?case using apply_event_mapped_filled by (simp add: run_snoc)
qed

text \<open>
  The fields the grid edits are columns, and \<^verbatim>\<open>id\<close> is not a column: every
  edit the grid makes meets the condition on edits.
\<close>

lemma column_edit_stable:
  "field \<in> set COLUMN_LABELS \<Longrightarrow> stable_event pos (CommitEdit rowId field val)"
  by (auto simp: COLUMN_LABELS_def)



subsection \<open>The optimistic write\<close>

text \<open>
  C4 (optimistic write). In every reachable state, for an identity mapped to a
  position, that position is filled, and \<^verbatim>\<open>updateCell\<close> has replaced its row
  by the row with the field set to the new value in the state in which the write
  request leaves; the request carries the identity, the field and the value.
  However the request ends, rejected or answered with any status, the state stays
  as it is: the value is kept, no store entry changes, no fetch and no further
  write is started.
\<close>

theorem optimistic_write:
  "(idToIdx (st (run evs session_init)) rowId = Some idx \<longrightarrow>
      (\<exists>cur. rowsMap (st (run evs session_init)) idx = Some cur
         \<and> rowsMap (fst (updateCell rowId field val (st (run evs session_init)))) idx
             = Some (set_prop cur field (JStr val))))
   \<and> (idToIdx s rowId = Some idx \<and> rowsMap s idx = Some cur \<longrightarrow>
        fst (updateCell rowId field val s)
          = s\<lparr>rowsMap := (rowsMap s)(idx \<mapsto> set_prop cur field (JStr val)),
               editingCell := None, editingDropdown := None\<rparr>)
   \<and> get_prop (set_prop cur field (JStr val)) field = JStr val
   \<and> snd (updateCell rowId field val s) = PatchRow rowId field val
   \<and> updateCell_settled out s = s
   \<and> st (apply_event w (WriteSettled req out)) = st w
   \<and> pendingFetches (apply_event w (WriteSettled req out)) = pendingFetches w
   \<and> length (pendingWrites (apply_event w (WriteSettled req out))) \<le> length (pendingWrites w)"
proof -
  let ?s = "st (run evs session_init)"
  have reach: "\<exists>cur. rowsMap ?s idx = Some cur
         \<and> rowsMap (fst (updateCell rowId field val ?s)) idx = Some (set_prop cur field (JStr val))"
    if m: "idToIdx ?s rowId = Some idx"
  proof -
    have "rowsMap ?s idx \<noteq> None"
      using run_mapped_filled [of evs] m unfolding mapped_filled_def by blast
    then obtain c where c: "rowsMap ?s idx = Some c" by blast
    then have "rowsMap (fst (updateCell rowId field val ?s)) idx = Some (set_prop c field (JStr val))"
      using m by (simp add: updateCell_def)
    with c show ?thesis by blast
  qed
  have settled: "updateCell_settled out s' = s'" for s'
    by (simp add: updateCell_settled_def split: write_outcome.splits)
  have len: "length (pendingWrites (apply_event w (WriteSettled req out))) \<le> length (pendingWrites w)"
    by (simp add: length_remove1)
  show ?thesis
    using reach settled len
    by (simp add: updateCell_def get_prop_set_prop)
qed

theorem optimistic_write_witness:
  "idToIdx (st (run
       [Mount, FetchSettled 0 (FetchResponded 200
          (RowsPage [[(''id'', JNum (Fin 42)), (''status'', JStr ''Planned'')]] 1 (Fin 150) (Fin 0)))]
       session_init)) (JNum (Fin 42)) = Some 0
   \<and> rowsMap (st (run
       [Mount, FetchSettled 0 (FetchResponded 200
          (RowsPage [[(''id'', JNum (Fin 42)), (''status'', JStr ''Planned'')]] 1 (Fin 150) (Fin 0)))]
       session_init)) 0 = Some [(''id'', JNum (Fin 42)), (''status'', JStr ''Planned'')]
   \<and> rowsMap (fst (updateCell (JNum (Fin 42)) ''status'' ''Done'' (st (run
       [Mount, FetchSettled 0 (FetchResponded 200
          (RowsPage [[(''id'', JNum (Fin 42)), (''status'', JStr ''Planned'')]] 1 (Fin 150) (Fin 0)))]
       session_init)))) 0 = Some [(''id'', JNum (Fin 42)), (''status'', JStr ''Done'')]
   \<and> rowsMap (st (run
       [Mount, FetchSettled 0 (FetchResponded 200
          (RowsPage [[(''id'', JNum (Fin 42)), (''status'', JStr ''Planned'')]] 1 (Fin 150) (Fin 0))),
        CommitEdit (JNum (Fin 42)) ''status'' ''Done'',
        WriteSettled (PatchRow (JNum (Fin 42)) ''status'' ''Done'') WriteRejected]
       session_init)) 0 = Some [(''id'', JNum (Fin 42)), (''status'', JStr ''Done'')]"
  using optimistic_write [of
      "[Mount, FetchSettled 0 (FetchResponded 200
          (RowsPage [[(''id'', JNum (Fin 42)), (''status'', JStr ''Planned'')]] 1 (Fin 150) (Fin 0)))]"
      "JNum (Fin 42)" 0 "''status''" "''Done''"
      "st (run
       [Mount, FetchSettled 0 (FetchResponded 200
          (RowsPage [[(''id'', JNum (Fin 42)), (''status'', JStr ''Planned'')]] 1 (Fin 150) (Fin 0)))]
       session_init)"
      "[(''id'', JNum (Fin 42)), (''status'', JStr ''Planned'')]"
      WriteRejected
      "run
       [Mount, FetchSettled 0 (FetchResponded 200
          (RowsPage [[(''id'', JNum (Fin 42)), (''status'', JStr ''Planned'')]] 1 (Fin 150) (Fin 0))),
        CommitEdit (JNum (Fin 42)) ''status'' ''Done'']
       session_init"
      "PatchRow (JNum (Fin 42)) ''status'' ''Done''"]
  by (simp add: session_eval)

section \<open>Properties of the server\<close>

subsection \<open>GET /api/rows\<close>

lemma js_or_not_NaN: "d \<noteq> NaN \<Longrightarrow> js_or x d \<noteq> NaN"
  by (auto simp: js_or_def js_falsy_def)

lemma effective_limit_range: "\<exists>l. effective_limit q = Fin l \<and> 1 \<le> l \<and> l \<le> 500"
proof -
  define x where "x = js_or (parseInt_param q) (Fin 150)"
  have "x \<noteq> NaN" unfolding x_def by (rule js_or_not_NaN) simp
  then have "\<exists>l. js_min (js_max (Fin 1) x) (Fin 500) = Fin l \<and> 1 \<le> l \<and> l \<le> 500"
    by (cases x) auto
  then show ?thesis by (simp add: effective_limit_def x_def)
qed

lemma effective_offset_range:
  "effective_offset q = PosInf \<or> (\<exists>k. effective_offset q = Fin k \<and> 0 \<le> k)"
proof -
  define x where "x = js_or (parseInt_param q) (Fin 0)"
  have "x \<noteq> NaN" unfolding x_def by (rule js_or_not_NaN) simp
  then have "js_max (Fin 0) x = PosInf \<or> (\<exists>k. js_max (Fin 0) x = Fin k \<and> 0 \<le> k)"
    by (cases x) auto
  then show ?thesis by (simp add: effective_offset_def x_def)
qed

lemma get_rows_status:
  "fst (get_rows db ql qo) = 200 \<or> get_rows db ql qo = (500, RowsError ''Database error'')"
  by (simp add: get_rows_def Let_def split: option.splits)

lemma get_rows_success:
  "select_rows db (effective_limit ql) (effective_offset qo) = Some rows \<Longrightarrow>
   count_rows db = Some t \<Longrightarrow>
     get_rows db ql qo = (200, RowsPage rows t (effective_limit ql) (effective_offset qo))"
  by (simp add: get_rows_def)

lemma get_rows_failure:
  "select_rows db (effective_limit ql) (effective_offset qo) = None \<or> count_rows db = None \<Longrightarrow>
     get_rows db ql qo = (500, RowsError ''Database error'')"
  by (auto simp: get_rows_def Let_def split: option.splits)

lemma huge_offset:
  "effective_offset (Some (units_of (CHR ''1'' # replicate 309 CHR ''0''))) = PosInf"
  by code_simp

lemma huge_limit:
  "effective_limit (Some (units_of (CHR ''1'' # replicate 309 CHR ''0''))) = Fin 500"
  by code_simp

lemma blank_limit: "effective_limit (Some [160, 53]) = Fin 5"
  by code_simp

text \<open>
  C9 (read request bounding) at the failing input. The limit is clamped from both
  sides, so an oversized limit becomes 500. The offset is cleaned of
  \<^verbatim>\<open>NaN\<close>, of 0 and of negative values only: for the offset written as 1
  followed by 309 zeros \<^verbatim>\<open>parseInt\<close> gives \<^verbatim>\<open>Infinity\<close>, which
  \<^verbatim>\<open>|| 0\<close> and \<^verbatim>\<open>Math.max(0, ...)\<close> keep. The effective offset is then
  no integer, and it is this value that the handler hands to the pool as the
  offset and, when the pool answers, puts into the response.
\<close>

theorem oversized_offset_reaches_store:
  "effective_offset (Some (units_of (CHR ''1'' # replicate 309 CHR ''0''))) = PosInf
   \<and> \<not> (\<exists>k. effective_offset (Some (units_of (CHR ''1'' # replicate 309 CHR ''0''))) = Fin k
             \<and> 0 \<le> k)
   \<and> effective_limit (Some (units_of (CHR ''1'' # replicate 309 CHR ''0''))) = Fin 500
   \<and> get_rows
        \<lparr> select_rows = (\<lambda>l off. if l = Fin 150 \<and> off = PosInf then Some [] else None),
          count_rows = Some 50000, exec_update = (\<lambda>t v. None) \<rparr>
        None (Some (units_of (CHR ''1'' # replicate 309 CHR ''0'')))
      = (200, RowsPage [] 50000 (Fin 150) PosInf)"
proof -
  have lim: "effective_limit None = Fin 150"
    by code_simp
  have page: "get_rows
        \<lparr> select_rows = (\<lambda>l off. if l = Fin 150 \<and> off = PosInf then Some [] else None),
          count_rows = Some 50000, exec_update = (\<lambda>t v. None) \<rparr>
        None (Some (units_of (CHR ''1'' # replicate 309 CHR ''0'')))
      = (200, RowsPage [] 50000 (Fin 150) PosInf)"
    using get_rows_success [where ql = None
        and qo = "Some (units_of (CHR ''1'' # replicate 309 CHR ''0''))"
        and rows = "[]" and t = 50000
        and db = "\<lparr> select_rows = (\<lambda>l off. if l = Fin 150 \<and> off = PosInf then Some [] else None),
          count_rows = Some 50000, exec_update = (\<lambda>t v. None) \<rparr>"]
    by (simp add: lim huge_offset)
  show ?thesis
    using page by (simp add: huge_offset huge_limit)
qed

subsection \<open>PATCH /api/rows/:id\<close>

lemma parseInt_42: "parseInt ''42'' = Fin 42"
  by code_simp

lemma parseInt_7: "parseInt ''7'' = Fin 7"
  by code_simp

lemma parseInt_999: "parseInt ''999'' = Fin 999"
  by code_simp

text \<open>
  C8 (broadcast once per successful write). The handler broadcasts the row \<open>r\<close>,
  and nothing else, exactly when the body has a field and the update returns
  \<open>r\<close> as its first row, and then it answers 200 with \<open>r\<close>; it never
  broadcasts more than one message. When the update returns no row it answers 404,
  when the query is rejected 500, when the body has no field 400, each time with
  an error body and without a broadcast.
\<close>

theorem broadcast_once_per_success:
  "(snd (patch_row db idParam updates) = [r] \<longleftrightarrow>
      updates \<noteq> []
      \<and> (\<exists>rest. exec_update db (fst (patch_query (parseInt idParam) updates))
                   (snd (patch_query (parseInt idParam) updates)) = Some (r # rest)))
   \<and> (snd (patch_row db idParam updates) = [r] \<longrightarrow>
        fst (patch_row db idParam updates) = (200, PatchedRow r))
   \<and> length (snd (patch_row db idParam updates)) \<le> 1
   \<and> (updates \<noteq> []
        \<and> exec_update db (fst (patch_query (parseInt idParam) updates))
              (snd (patch_query (parseInt idParam) updates)) = Some [] \<longrightarrow>
        patch_row db idParam updates = ((404, PatchError ''Row not found''), []))
   \<and> (updates \<noteq> []
        \<and> exec_update db (fst (patch_query (parseInt idParam) updates))
              (snd (patch_query (parseInt idParam) updates)) = None \<longrightarrow>
        patch_row db idParam updates = ((500, PatchError ''Database error''), []))
   \<and> (updates = [] \<longrightarrow>
        patch_row db idParam updates = ((400, PatchError ''No fields to update''), []))"
proof (cases "updates = []")
  case True
  then show ?thesis by (simp add: patch_row_def)
next
  case False
  show ?thesis
  proof (cases "exec_update db (fst (patch_query (parseInt idParam) updates))
                  (snd (patch_query (parseInt idParam) updates))")
    case None
    with False show ?thesis by (simp add: patch_row_def Let_def)
  next
    case (Some rows)
    with False show ?thesis by (cases rows) (auto simp: patch_row_def Let_def)
  qed
qed

theorem broadcast_once_per_success_witness:
  "patch_row
      \<lparr> select_rows = (\<lambda>l off. None), count_rows = None,
        exec_update = (\<lambda>text vals.
          if last vals = JNum (Fin 42) then Some [[(''id'', JNum (Fin 42)), (''status'', JStr ''Done'')]]
          else if last vals = JNum (Fin 7) then None else Some []) \<rparr>
      ''42'' [(''status'', JStr ''Done'')]
     = ((200, PatchedRow [(''id'', JNum (Fin 42)), (''status'', JStr ''Done'')]),
        [[(''id'', JNum (Fin 42)), (''status'', JStr ''Done'')]])
   \<and> patch_row
      \<lparr> select_rows = (\<lambda>l off. None), count_rows = None,
        exec_update = (\<lambda>text vals.
          if last vals = JNum (Fin 42) then Some [[(''id'', JNum (Fin 42)), (''status'', JStr ''Done'')]]
          else if last vals = JNum (Fin 7) then None else Some []) \<rparr>
      ''999'' [(''status'', JStr ''Done'')]
     = ((404, PatchError ''Row not found''), [])
   \<and> patch_row
      \<lparr> select_rows = (\<lambda>l off. None), count_rows = None,
        exec_update = (\<lambda>text vals.
          if last vals = JNum (Fin 42) then Some [[(''id'', JNum (Fin 42)), (''status'', JStr ''Done'')]]
          else if last vals = JNum (Fin 7) then None else Some []) \<rparr>
      ''7'' [(''status'', JStr ''Done'')]
     = ((500, PatchError ''Database error''), [])
   \<and> patch_row
      \<lparr> select_rows = (\<lambda>l off. None), count_rows = None,
        exec_update = (\<lambda>text vals.
          if last vals = JNum (Fin 42) then Some [[(''id'', JNum (Fin 42)), (''status'', JStr ''Done'')]]
          else if last vals = JNum (Fin 7) then None else Some []) \<rparr>
      ''42'' []
     = ((400, PatchError ''No fields to update''), [])"
  using
    broadcast_once_per_success [where idParam = "''42''" and updates = "[(''status'', JStr ''Done'')]"
      and r = "[(''id'', JNum (Fin 42)), (''status'', JStr ''Done'')]"
      and db = "\<lparr> select_rows = (\<lambda>l off. None), count_rows = None,
        exec_update = (\<lambda>text vals.
          if last vals = JNum (Fin 42) then Some [[(''id'', JNum (Fin 42)), (''status'', JStr ''Done'')]]
          else if last vals = JNum (Fin 7) then None else Some []) \<rparr>"]
    broadcast_once_per_success [where idParam = "''999''" and updates = "[(''status'', JStr ''Done'')]"
      and r = "[]"
      and db = "\<lparr> select_rows = (\<lambda>l off. None), count_rows = None,
        exec_update = (\<lambda>text vals.
          if last vals = JNum (Fin 42) then Some [[(''id'', JNum (Fin 42)), (''status'', JStr ''Done'')]]
          else if last vals = JNum (Fin 7) then None else Some []) \<rparr>"]
    broadcast_once_per_success [where idParam = "''7''" and updates = "[(''status'', JStr ''Done'')]"
      and r = "[]"
      and db = "\<lparr> select_rows = (\<lambda>l off. None), count_rows = None,
        exec_update = (\<lambda>text vals.
          if last vals = JNum (Fin 42) then Some [[(''id'', JNum (Fin 42)), (''status'', JStr ''Done'')]]
          else if last vals = JNum (Fin 7) then None else Some []) \<rparr>"]
    broadcast_once_per_success [where idParam = "''42''" and updates = "[]"
      and r = "[]"
      and db = "\<lparr> select_rows = (\<lambda>l off. None), count_rows = None,
        exec_update = (\<lambda>text vals.
          if last vals = JNum (Fin 42) then Some [[(''id'', JNum (Fin 42)), (''status'', JStr ''Done'')]]
          else if last vals = JNum (Fin 7) then None else Some []) \<rparr>"]
  by (simp add: patch_query_def Let_def parseInt_42 parseInt_7 parseInt_999 prod_eq_iff)

subsection \<open>The statement text of the update\<close>

lemma enumerate_map: "enumerate n (map f xs) = map (\<lambda>(i, x). (i, f x)) (enumerate n xs)"
  by (induction xs arbitrary: n) simp_all

lemma set_clause_template:
  "set_clause keys =
     join '', '' (map (\<lambda>(i, c). c @ '' = $'' @ dec (i + 1)) (enumerate 0 (map normalize_field keys)))"
  by (simp add: set_clause_def enumerate_map case_prod_unfold comp_def)

lemma patch_query_text:
  "fst (patch_query rid updates) = fixed_template (map normalize_field (map fst updates))"
  by (simp add: patch_query_def fixed_template_def Let_def set_clause_template)

lemma patch_query_values:
  "snd (patch_query rid updates) = map (get_prop updates) (map fst updates) @ [JNum rid]"
  by (simp add: patch_query_def Let_def)

lemma get_prop_distinct_keys:
  assumes "distinct (map fst updates)"
  shows "map (get_prop updates) (map fst updates) = map snd updates"
proof -
  have "get_prop updates (fst p) = snd p" if "p \<in> set updates" for p
  proof -
    from that have "(fst p, snd p) \<in> set updates" by simp
    then have "map_of updates (fst p) = Some (snd p)"
      using assms by (rule map_of_is_SomeI [rotated])
    then show ?thesis by (simp add: get_prop_def)
  qed
  then show ?thesis by (simp add: comp_def)
qed

lemma join_avoids:
  "c \<notin> set sep \<Longrightarrow> \<forall>x \<in> set xs. c \<notin> set x \<Longrightarrow> c \<notin> set (join sep xs)"
  by (induction sep xs rule: join.induct) auto

lemma digit_char_not_dash: "d < 10 \<Longrightarrow> digit_char d \<noteq> CHR ''-''"
proof
  assume d: "d < 10" and e: "digit_char d = CHR ''-''"
  have "(of_char (digit_char d) :: nat) = (48 + d) mod 256"
    by (simp add: digit_char_def)
  with e have "(48 + d) mod 256 = (45 :: nat)" by simp
  with d show False by simp
qed

lemma dec_no_dash: "CHR ''-'' \<notin> set (dec n)"
proof (induction n rule: dec.induct)
  case (1 n)
  show ?case
  proof (cases "n < 10")
    case True
    then show ?thesis by (subst dec.simps) (simp add: digit_char_not_dash [symmetric] digit_char_not_dash)
  next
    case False
    then have "CHR ''-'' \<notin> set (dec (n div 10))" using 1 by simp
    moreover have "digit_char (n mod 10) \<noteq> CHR ''-''" by (rule digit_char_not_dash) simp
    ultimately show ?thesis using False by (subst dec.simps) auto
  qed
qed

lemma identifier_no_dash: "is_identifier c \<Longrightarrow> CHR ''-'' \<notin> set c"
proof
  assume i: "is_identifier c" and m: "CHR ''-'' \<in> set c"
  then have "ident_char (CHR ''-'')" by (auto simp: is_identifier_def list_all_iff)
  then show False by (simp add: ident_char_def)
qed

lemma fixed_template_no_dash:
  assumes "list_all is_identifier cols"
  shows "CHR ''-'' \<notin> set (fixed_template cols)"
proof -
  have item: "CHR ''-'' \<notin> set x"
    if "x \<in> set (map (\<lambda>(i, c). c @ '' = $'' @ dec (i + 1)) (enumerate 0 cols))" for x
  proof -
    from that obtain i c where x: "x = c @ '' = $'' @ dec (i + 1)" and c: "c \<in> set cols"
      by (auto simp: in_set_enumerate_eq)
    from c assms have "is_identifier c" by (simp add: list_all_iff)
    then show ?thesis using x dec_no_dash [of "i + 1"] identifier_no_dash [of c] by auto
  qed
  have "CHR ''-'' \<notin> set (join '', '' (map (\<lambda>(i, c). c @ '' = $'' @ dec (i + 1)) (enumerate 0 cols)))"
    by (rule join_avoids) (use item in auto)
  then show ?thesis
    using dec_no_dash [of "length cols + 1"] by (simp add: fixed_template_def)
qed

lemma injected_text:
  "fixed_template (map normalize_field (map fst [(''status=$1,stage=$2--'', JStr ''x'')]))
     = ''UPDATE creative_tasks SET status=$1,stage=$2-- = $1 WHERE id = $2 RETURNING *''"
  by code_simp

lemma plain_text:
  "fixed_template (map normalize_field (map fst [(''Status'', JStr ''Done''), (''Task  Owner'', JStr ''Ann'')]))
     = ''UPDATE creative_tasks SET status = $1, task_owner = $2 WHERE id = $3 RETURNING *''"
  by code_simp

lemma plain_columns:
  "map normalize_field [''Status'', ''Task  Owner''] = [''status'', ''task_owner'']
   \<and> list_all is_identifier [''status'', ''task_owner'']"
  by code_simp

text \<open>
  C10 (field names are interpolated). The statement text is the template filled
  with the normalised field names of the body as they come, so it depends on the
  field names only; the field values and the row id travel as bound values (for
  a body as an object has it, with distinct keys). For the body with the one field
  \<^verbatim>\<open>status=$1,stage=$2--\<close> the text sets two columns and comments out the
  \<^verbatim>\<open>WHERE\<close> clause, and it is not the fixed template over any list of
  column identifiers.
\<close>

theorem field_names_interpolated:
  "fst (patch_query rid updates) = fixed_template (map normalize_field (map fst updates))
   \<and> (distinct (map fst updates) \<longrightarrow> snd (patch_query rid updates) = map snd updates @ [JNum rid])
   \<and> (map fst updates' = map fst updates \<longrightarrow>
        fst (patch_query rid' updates') = fst (patch_query rid updates))
   \<and> fst (patch_query rid [(''status=$1,stage=$2--'', JStr ''x'')])
        = ''UPDATE creative_tasks SET status=$1,stage=$2-- = $1 WHERE id = $2 RETURNING *''
   \<and> snd (patch_query rid [(''status=$1,stage=$2--'', JStr ''x'')]) = [JStr ''x'', JNum rid]
   \<and> (list_all is_identifier cols \<longrightarrow>
        fst (patch_query rid [(''status=$1,stage=$2--'', JStr ''x'')]) \<noteq> fixed_template cols)"
proof -
  have vals: "snd (patch_query rid updates) = map snd updates @ [JNum rid]"
    if "distinct (map fst updates)"
    by (simp only: patch_query_values get_prop_distinct_keys [OF that])
  have same: "fst (patch_query rid' updates') = fst (patch_query rid updates)"
    if "map fst updates' = map fst updates"
    using that by (simp add: patch_query_text)
  have injected: "fst (patch_query rid [(''status=$1,stage=$2--'', JStr ''x'')])
        = ''UPDATE creative_tasks SET status=$1,stage=$2-- = $1 WHERE id = $2 RETURNING *''"
    by (simp only: patch_query_text injected_text)
  have v1: "snd (patch_query rid [(''status=$1,stage=$2--'', JStr ''x'')]) = [JStr ''x'', JNum rid]"
    by (simp add: patch_query_values get_prop_def)
  have diff: "fst (patch_query rid [(''status=$1,stage=$2--'', JStr ''x'')]) \<noteq> fixed_template cols"
    if ids: "list_all is_identifier cols"
  proof
    assume e: "fst (patch_query rid [(''status=$1,stage=$2--'', JStr ''x'')]) = fixed_template cols"
    have lit: "''UPDATE creative_tasks SET status=$1,stage=$2-- = $1 WHERE id = $2 RETURNING *''
        = fixed_template cols"
      using e injected by simp
    have "CHR ''-'' \<in> set (fixed_template cols)"
      unfolding lit [symmetric] by simp
    then show False using fixed_template_no_dash [OF ids] by blast
  qed
  show ?thesis
    using patch_query_text [of rid updates] vals same injected v1 diff by blast
qed

theorem field_names_interpolated_witness:
  "distinct (map fst [(''Status'', JStr ''Done''), (''Task  Owner'', JStr ''Ann'')])
   \<and> snd (patch_query (Fin 5) [(''Status'', JStr ''Done''), (''Task  Owner'', JStr ''Ann'')])
        = map snd [(''Status'', JStr ''Done''), (''Task  Owner'', JStr ''Ann'')] @ [JNum (Fin 5)]
   \<and> map fst [(''Status'', JStr ''Draft''), (''Task  Owner'', JStr ''Bob'')]
        = map fst [(''Status'', JStr ''Done''), (''Task  Owner'', JStr ''Ann'')]
   \<and> fst (patch_query (Fin 6) [(''Status'', JStr ''Draft''), (''Task  Owner'', JStr ''Bob'')])
        = fst (patch_query (Fin 5) [(''Status'', JStr ''Done''), (''Task  Owner'', JStr ''Ann'')])
   \<and> fst (patch_query (Fin 5) [(''Status'', JStr ''Done''), (''Task  Owner'', JStr ''Ann'')])
        = ''UPDATE creative_tasks SET status = $1, task_owner = $2 WHERE id = $3 RETURNING *''
   \<and> list_all is_identifier [''status'', ''task_owner'']
   \<and> fst (patch_query (Fin 5) [(''status=$1,stage=$2--'', JStr ''x'')])
        \<noteq> fixed_template [''status'', ''task_owner'']"
proof -
  note T = field_names_interpolated [where rid = "Fin 5" and rid' = "Fin 6"
      and updates = "[(''Status'', JStr ''Done''), (''Task  Owner'', JStr ''Ann'')]"
      and updates' = "[(''Status'', JStr ''Draft''), (''Task  Owner'', JStr ''Bob'')]"
      and cols = "[''status'', ''task_owner'']"]
  have d: "distinct (map fst [(''Status'', JStr ''Done''), (''Task  Owner'', JStr ''Ann'')])"
    by simp
  have k: "map fst [(''Status'', JStr ''Draft''), (''Task  Owner'', JStr ''Bob'')]
        = map fst [(''Status'', JStr ''Done''), (''Task  Owner'', JStr ''Ann'')]"
    by simp
  have i: "list_all is_identifier [''status'', ''task_owner'']"
    using plain_columns by blast
  have t: "fst (patch_query (Fin 5) [(''Status'', JStr ''Done''), (''Task  Owner'', JStr ''Ann'')])
        = ''UPDATE creative_tasks SET status = $1, task_owner = $2 WHERE id = $3 RETURNING *''"
    using T plain_text by metis
  show ?thesis
    using T d k i t by blast
qed

end
